theory Spec2Isabelle
  imports Main "HOL-Library.Word"
begin

unbundle bit_operations_syntax

section \<open>Bytes, slices and errors\<close>

text \<open>
  Go's \<open>byte\<close>, \<open>uint16\<close> and \<open>uint32\<close> are machine words; a \<open>[]byte\<close> is a list of
  bytes, and a Go \<open>string\<close> is a read-only byte sequence, so it is a list of bytes too.
\<close>

type_synonym byte = "8 word"
type_synonym uint16 = "16 word"
type_synonym uint32 = "32 word"
type_synonym gostring = "byte list"

text \<open>
  The errors of the decoders are built with \<open>fmt.Errorf\<close> from a message; an index or a
  slice bound out of range is a run-time panic.
\<close>

datatype error = Errorf string | Panic

text \<open>The slice expression \<open>b[lo:hi]\<close>, used where the bounds are in range.\<close>

definition slice :: "'a list \<Rightarrow> nat \<Rightarrow> nat \<Rightarrow> 'a list" where
  "slice b lo hi = take (hi - lo) (drop lo b)"

text \<open>\<open>binary.BigEndian.Uint16(b)\<close> is \<open>uint16(b[1]) | uint16(b[0])<<8\<close>.\<close>

definition BigEndian_Uint16 :: "byte list \<Rightarrow> uint16" where
  "BigEndian_Uint16 b = ucast (b ! 1) OR push_bit 8 (ucast (b ! 0))"

text \<open>
  \<open>binary.BigEndian.PutUint16\<close> on a fresh two-byte slice, and \<open>binary.Write\<close> of a
  \<open>uint16\<close> in big-endian order, both produce the high byte and then the low byte.
\<close>

definition BigEndian_PutUint16 :: "uint16 \<Rightarrow> byte list" where
  "BigEndian_PutUint16 v = [ucast (drop_bit 8 v), ucast v]"

definition BigEndian_PutUint32 :: "uint32 \<Rightarrow> byte list" where
  "BigEndian_PutUint32 v =
     [ucast (drop_bit 24 v), ucast (drop_bit 16 v), ucast (drop_bit 8 v), ucast v]"

section \<open>The header codec\<close>

text \<open>The struct \<open>Header\<close> of models.go.\<close>

record Header =
  ID :: uint16
  QR :: bool
  OPCODE :: byte
  AA :: bool
  TC :: bool
  RD :: bool
  RA :: bool
  Z :: byte
  RCODE :: byte
  QDCOUNT :: uint16
  ANCOUNT :: uint16
  NSCOUNT :: uint16
  ARCOUNT :: uint16

definition AA_Mask :: byte where "AA_Mask = push_bit 2 1"
definition TC_Mask :: byte where "TC_Mask = push_bit 1 1"
definition RD_Mask :: byte where "RD_Mask = 1"
definition OPCODE_Shift :: nat where "OPCODE_Shift = 3"
definition OPCODE_Mask :: byte where "OPCODE_Mask = 0x0F"

definition parseDnsHeader :: "byte list \<Rightarrow> error + Header" where
  "parseDnsHeader buf =
     (if length buf < 12 then Inl (Errorf ''buffer too short'')
      else Inr \<lparr>
        ID = BigEndian_Uint16 (slice buf 0 2),
        QR = (buf ! 2 AND 0x80 \<noteq> 0),
        OPCODE = drop_bit OPCODE_Shift (buf ! 2) AND OPCODE_Mask,
        AA = (buf ! 2 AND AA_Mask \<noteq> 0),
        TC = (buf ! 2 AND TC_Mask \<noteq> 0),
        RD = (buf ! 2 AND RD_Mask \<noteq> 0),
        RA = (buf ! 3 AND 0x80 \<noteq> 0),
        Z = drop_bit 4 (buf ! 3) AND 0x07,
        RCODE = buf ! 3 AND 0x0F,
        QDCOUNT = BigEndian_Uint16 (slice buf 4 6),
        ANCOUNT = BigEndian_Uint16 (slice buf 6 8),
        NSCOUNT = BigEndian_Uint16 (slice buf 8 10),
        ARCOUNT = BigEndian_Uint16 (slice buf 10 12) \<rparr>)"

definition boolToUint16 :: "bool \<Rightarrow> uint16" where
  "boolToUint16 b = (if b then 1 else 0)"

text \<open>
  The flags word that \<open>buildResponse\<close> accumulates with \<open>flags |= ...\<close>, one statement
  after the other, from the header it was given (after \<open>QR\<close> has been set).
\<close>

definition responseFlags :: "Header \<Rightarrow> uint16" where
  "responseFlags header =
     (let flags = 0;
          flags = flags OR 0x8000;
          flags = flags OR push_bit 11 (ucast (OPCODE header) AND ucast OPCODE_Mask);
          flags = flags OR push_bit 10 (boolToUint16 (AA header));
          flags = flags OR push_bit 9 (boolToUint16 (TC header));
          flags = flags OR push_bit 8 (boolToUint16 (RD header));
          flags = flags OR push_bit 7 (boolToUint16 (RA header));
          flags = flags OR push_bit 4 (ucast (Z header) AND 0x07);
          flags = flags OR (ucast (RCODE header) AND 0x0F)
      in flags)"

text \<open>
  \<open>buildResponse\<close> takes a pointer and assigns \<open>header.QR = true\<close> before it writes
  anything, so the caller's header changes: the model returns the header after the call
  together with the bytes. The error result of the Go function is \<open>nil\<close> on its only
  return path, so it is not part of the model.
\<close>

definition buildResponse :: "Header \<Rightarrow> Header \<times> byte list" where
  "buildResponse header0 =
     (let header = header0\<lparr>QR := True\<rparr>
      in (header,
          BigEndian_PutUint16 (ID header) @
          BigEndian_PutUint16 (responseFlags header) @
          BigEndian_PutUint16 (QDCOUNT header) @
          BigEndian_PutUint16 (ANCOUNT header) @
          BigEndian_PutUint16 (NSCOUNT header) @
          BigEndian_PutUint16 (ARCOUNT header)))"

text \<open>A query header within the declared widths, with \<open>QR\<close> clear.\<close>

definition queryHeader :: Header where
  "queryHeader = \<lparr>ID = 0x1081, QR = False, OPCODE = 0, AA = False, TC = False, RD = True,
     RA = False, Z = 0, RCODE = 0, QDCOUNT = 1, ANCOUNT = 0, NSCOUNT = 0, ARCOUNT = 0\<rparr>"

section \<open>Questions and answers\<close>

text \<open>
  \<open>strings.Split(s, ".")\<close> and \<open>strings.Join(elems, ".")\<close>, for a separator of one
  byte: \<open>Split\<close> returns the pieces between the separators, so it returns one empty piece
  for the empty string and never the empty list; \<open>Join\<close> of no pieces is the empty string.
\<close>

fun strings_Split :: "gostring \<Rightarrow> byte \<Rightarrow> gostring list" where
  "strings_Split [] sep = [[]]"
| "strings_Split (c # cs) sep =
     (if c = sep then [] # strings_Split cs sep
      else (case strings_Split cs sep of
              [] \<Rightarrow> [[c]]
            | piece # pieces \<Rightarrow> (c # piece) # pieces))"

fun strings_Join :: "gostring list \<Rightarrow> byte \<Rightarrow> gostring" where
  "strings_Join [] sep = []"
| "strings_Join [a] sep = a"
| "strings_Join (a # b # elems) sep = a @ sep # strings_Join (b # elems) sep"

definition dot :: byte where "dot = 46"

record DNSQuestion =
  Name :: gostring
  Type :: uint16
  Class :: uint16

text \<open>
  The loop \<open>for _, label := range labels\<close> of both \<open>Serialize\<close> methods: it appends
  \<open>byte(len(label))\<close>, which keeps the low eight bits of the length, and then the bytes
  of the label.
\<close>

fun serializeLabels :: "byte list \<Rightarrow> gostring list \<Rightarrow> byte list" where
  "serializeLabels buf [] = buf"
| "serializeLabels buf (label # labels) =
     serializeLabels ((buf @ [of_nat (length label)]) @ label) labels"

definition DNSQuestion_Serialize :: "DNSQuestion \<Rightarrow> byte list" where
  "DNSQuestion_Serialize q =
     (let buf = [];
          labels = strings_Split (DNSQuestion.Name q) dot;
          buf = serializeLabels buf labels;
          buf = buf @ [0];
          qType = BigEndian_PutUint16 (DNSQuestion.Type q);
          buf = buf @ qType;
          class = BigEndian_PutUint16 (DNSQuestion.Class q);
          buf = buf @ class
      in buf)"

record DNSAnswer =
  Name :: gostring
  Type :: uint16
  Class :: uint16
  TTL :: uint32
  RDLength :: uint16
  RData :: "byte list"

definition DNSAnswer_Serialize :: "DNSAnswer \<Rightarrow> byte list" where
  "DNSAnswer_Serialize a =
     (let buf = [];
          labels = strings_Split (DNSAnswer.Name a) dot;
          buf = serializeLabels buf labels;
          buf = buf @ [0];
          typeBytes = BigEndian_PutUint16 (DNSAnswer.Type a);
          buf = buf @ typeBytes;
          classBytes = BigEndian_PutUint16 (DNSAnswer.Class a);
          buf = buf @ classBytes;
          ttlBytes = BigEndian_PutUint32 (TTL a);
          buf = buf @ ttlBytes;
          rdLengthBytes = BigEndian_PutUint16 (RDLength a);
          buf = buf @ rdLengthBytes;
          buf = buf @ RData a
      in buf)"

text \<open>
  The \<open>for\<close> loop of \<open>parseDNSQuestion\<close>, on its two variables \<open>name\<close> and \<open>data\<close>.
  \<open>data[0]\<close> panics on an empty slice. With \<open>labelSize + 1\<close> beyond the length,
  \<open>data[labelSize+1:]\<close> panics if \<open>data[1:labelSize+1]\<close> has not done so already.
\<close>

function parseLabels :: "gostring list \<Rightarrow> byte list \<Rightarrow> error + (gostring list \<times> byte list)" where
  "parseLabels name data =
     (if data = [] then Inl Panic
      else let labelSize = unat (data ! 0) in
        if labelSize = 0 then Inr (name, data)
        else if length data < labelSize + 1 then Inl Panic
        else parseLabels (name @ [slice data 1 (labelSize + 1)]) (drop (labelSize + 1) data))"
  by pat_completeness auto
termination
  by (relation "measure (\<lambda>(name, data). length data)") auto

declare parseLabels.simps [simp del]

text \<open>
  \<open>parseDNSQuestion\<close>. On the error path the Go function returns the half-filled
  question next to the error; the model returns the error.
\<close>

definition parseDNSQuestion :: "byte list \<Rightarrow> error + DNSQuestion" where
  "parseDNSQuestion data0 =
     (case parseLabels [] data0 of
        Inl e \<Rightarrow> Inl e
      | Inr (name, data) \<Rightarrow>
          (let qName = strings_Join name dot;
               data = drop 1 data
           in if length data < 4 then Inl (Errorf ''invalid question format'')
              else (let qType = BigEndian_Uint16 (slice data 0 2);
                        data = drop 2 data;
                        qClass = BigEndian_Uint16 (slice data 0 2)
                    in Inr \<lparr>DNSQuestion.Name = qName, DNSQuestion.Type = qType,
                             DNSQuestion.Class = qClass\<rparr>)))"

section \<open>Decoding compressed names\<close>

text \<open>
  Modelled from the spec: the decoder of several questions with compression pointers,
  \<open>parseDNSQuestions\<close>, which the test \<open>TestParseDNSQuestions\<close> calls on a header read by
  \<open>DNSHeader.Parse\<close>, is not among the source files; \<open>parseDNSQuestion\<close> above reads the
  length-prefixed labels of one question and knows no pointers. The definitions of this
  section follow sections 4.2 to 4.4 and 7 of the specification: the error kinds, the
  three kinds of length byte, the pointer as an absolute offset into the whole message,
  the cursor that ends right after the two bytes of a pointer, the hop limit taken as
  the length of the message, the question and the message decoders.
\<close>

text \<open>Modelled from the spec: the error kinds of section 7.\<close>

datatype codec_error =
  TruncatedInput | LabelTooLong | InvalidLabelLength | CompressionLoop | CountMismatch

text \<open>
  Modelled from the spec: how a run of labels ends, with the zero byte (and the offset
  right after it) or with a pointer (its target, and the offset right after its two bytes).
\<close>

datatype name_end = EndOfName nat | PointerTo nat nat

text \<open>
  Modelled from the spec: the offset of a pointer, the low 14 bits of the length byte
  combined with the following byte.
\<close>

definition pointerOffset :: "byte \<Rightarrow> byte \<Rightarrow> nat" where
  "pointerOffset b next = unat (push_bit 8 (ucast (b AND 0x3F) :: uint16) OR ucast next)"

text \<open>
  Modelled from the spec: reading length-prefixed labels from an offset of the message up
  to the end of the name or to the first pointer.
\<close>

function scanLabels :: "byte list \<Rightarrow> nat \<Rightarrow> codec_error + (gostring list \<times> name_end)" where
  "scanLabels buf off =
     (if length buf \<le> off then Inl TruncatedInput
      else let b = buf ! off in
        if b = 0 then Inr ([], EndOfName (off + 1))
        else if b AND 0xC0 = 0 then
          (if length buf < off + 1 + unat b then Inl TruncatedInput
           else (case scanLabels buf (off + 1 + unat b) of
                   Inl e \<Rightarrow> Inl e
                 | Inr (labels, ending) \<Rightarrow> Inr (slice buf (off + 1) (off + 1 + unat b) # labels, ending)))
        else if b AND 0xC0 = 0xC0 then
          (if length buf \<le> off + 1 then Inl TruncatedInput
           else Inr ([], PointerTo (pointerOffset b (buf ! (off + 1))) (off + 2)))
        else Inl InvalidLabelLength)"
  by pat_completeness auto
termination
  by (relation "measure (\<lambda>(buf, off). length buf - off)") auto

declare scanLabels.simps [simp del]

text \<open>
  Modelled from the spec: following the pointers of a name with a bounded number of hops;
  a pointer met with no hop left is rejected with \<open>CompressionLoop\<close>. Only the labels
  found at the target are appended, and the cursor of the caller stays after the pointer.
\<close>

primrec decodeFrom :: "nat \<Rightarrow> byte list \<Rightarrow> nat \<Rightarrow> codec_error + (gostring list \<times> nat)" where
  "decodeFrom 0 buf off =
     (case scanLabels buf off of
        Inl e \<Rightarrow> Inl e
      | Inr (labels, EndOfName nextOffset) \<Rightarrow> Inr (labels, nextOffset)
      | Inr (labels, PointerTo target nextOffset) \<Rightarrow> Inl CompressionLoop)"
| "decodeFrom (Suc hops) buf off =
     (case scanLabels buf off of
        Inl e \<Rightarrow> Inl e
      | Inr (labels, EndOfName nextOffset) \<Rightarrow> Inr (labels, nextOffset)
      | Inr (labels, PointerTo target nextOffset) \<Rightarrow>
          (case decodeFrom hops buf target of
             Inl e \<Rightarrow> Inl e
           | Inr (rest, _) \<Rightarrow> Inr (labels @ rest, nextOffset)))"

text \<open>Modelled from the spec: \<open>decodeName\<close>, with the length of the message as hop limit.\<close>

definition decodeName :: "byte list \<Rightarrow> nat \<Rightarrow> codec_error + (gostring list \<times> nat)" where
  "decodeName buf startOffset = decodeFrom (length buf) buf startOffset"

text \<open>
  Modelled from the spec: the number of length bytes that a scan looks at, the measure of
  its work; the recursion is that of \<open>scanLabels\<close>.
\<close>

function scanSteps :: "byte list \<Rightarrow> nat \<Rightarrow> nat" where
  "scanSteps buf off =
     (if length buf \<le> off then 1
      else let b = buf ! off in
        if b = 0 then 1
        else if b AND 0xC0 = 0 then
          (if length buf < off + 1 + unat b then 1
           else 1 + scanSteps buf (off + 1 + unat b))
        else 1)"
  by pat_completeness auto
termination
  by (relation "measure (\<lambda>(buf, off). length buf - off)") auto

declare scanSteps.simps [simp del]

text \<open>
  Modelled from the spec: the number of length bytes that a decoding with a number of
  hops looks at, over all the scans it makes; the recursion is that of \<open>decodeFrom\<close>.
\<close>

primrec decodeSteps :: "nat \<Rightarrow> byte list \<Rightarrow> nat \<Rightarrow> nat" where
  "decodeSteps 0 buf off = scanSteps buf off"
| "decodeSteps (Suc hops) buf off =
     scanSteps buf off +
     (case scanLabels buf off of
        Inr (labels, PointerTo target nextOffset) \<Rightarrow> decodeSteps hops buf target
      | _ \<Rightarrow> 0)"

text \<open>
  Modelled from the spec: a question, with its name as an ordered sequence of labels, its
  type and its class (section 3).
\<close>

record Question =
  QName :: "gostring list"
  QType :: uint16
  QClass :: uint16

text \<open>
  Modelled from the spec: \<open>decodeQuestion\<close> of section 4.3, the name and then type and
  class as two big-endian 16-bit fields; \<open>TruncatedInput\<close> if fewer than four bytes
  remain after the name.
\<close>

definition decodeQuestion :: "byte list \<Rightarrow> nat \<Rightarrow> codec_error + (Question \<times> nat)" where
  "decodeQuestion buf off =
     (case decodeName buf off of
        Inl e \<Rightarrow> Inl e
      | Inr (labels, nextOffset) \<Rightarrow>
          if length buf < nextOffset + 4 then Inl TruncatedInput
          else Inr (\<lparr>QName = labels,
                     QType = BigEndian_Uint16 (slice buf nextOffset (nextOffset + 2)),
                     QClass = BigEndian_Uint16 (slice buf (nextOffset + 2) (nextOffset + 4))\<rparr>,
                    nextOffset + 4))"

text \<open>
  Modelled from the spec: decoding a number of questions in sequence, each from the
  offset left by the one before, up to the first error (section 4.4).
\<close>

fun decodeQuestions :: "byte list \<Rightarrow> nat \<Rightarrow> nat \<Rightarrow> codec_error + Question list" where
  "decodeQuestions buf 0 off = Inr []"
| "decodeQuestions buf (Suc n) off =
     (case decodeQuestion buf off of
        Inl e \<Rightarrow> Inl e
      | Inr (q, nextOffset) \<Rightarrow>
          (case decodeQuestions buf n nextOffset of
             Inl e \<Rightarrow> Inl e
           | Inr qs \<Rightarrow> Inr (q # qs)))"

text \<open>
  Modelled from the spec: a decoded message, one header and the questions in order
  (section 3).
\<close>

record Message =
  MHeader :: Header
  MQuestions :: "Question list"

text \<open>
  Modelled from the spec: \<open>decodeMessage\<close> of section 4.4, the header, read by
  \<open>parseDnsHeader\<close>, whose only error is that of a truncated input, and then \<open>QDCOUNT\<close>
  questions from offset 12.
\<close>

definition decodeMessage :: "byte list \<Rightarrow> codec_error + Message" where
  "decodeMessage buf =
     (case parseDnsHeader buf of
        Inl e \<Rightarrow> Inl TruncatedInput
      | Inr header \<Rightarrow>
          (case decodeQuestions buf (unat (QDCOUNT header)) 12 of
             Inl e \<Rightarrow> Inl e
           | Inr questions \<Rightarrow> Inr \<lparr>MHeader = header, MQuestions = questions\<rparr>))"

text \<open>The bytes of an ASCII string literal, and the message of \<open>TestParseDNSQuestions\<close>.\<close>

definition bytesOf :: "string \<Rightarrow> gostring" where
  "bytesOf s = map of_char s"

definition testMessage :: "byte list" where
  "testMessage =
     [16, 129, 1, 0, 0, 2, 0, 0, 0, 0, 0, 0,
      3, 97, 98, 99,
      17, 108, 111, 110, 103, 97, 115, 115, 100, 111, 109, 97, 105, 110, 110, 97, 109, 101,
      3, 99, 111, 109, 0, 0, 1, 0, 1,
      3, 100, 101, 102, 192, 16, 0, 1, 0, 1]"

text \<open>
  A name of one label of 64 bytes, and an answer whose \<open>RDLength\<close> is not the length of
  its \<open>RData\<close>; both are values of the types of the program.
\<close>

definition longName :: gostring where
  "longName = replicate 64 97"

definition staleAnswer :: DNSAnswer where
  "staleAnswer = \<lparr>DNSAnswer.Name = [97], DNSAnswer.Type = 1, DNSAnswer.Class = 1, TTL = 60,
     RDLength = 0, RData = [8, 8, 8, 8]\<rparr>"

text \<open>
  Two messages whose question name never ends: a label at offset 12 and at offset 14 a
  pointer to offset 14, and a pointer at offset 12 to offset 14 where a pointer leads
  back to offset 12.
\<close>

definition selfPointer :: "byte list" where
  "selfPointer = replicate 12 0 @ [1, 97, 0xC0, 14]"

definition twoCycle :: "byte list" where
  "twoCycle = replicate 12 0 @ [0xC0, 14, 0xC0, 12]"

section \<open>Properties of the header codec\<close>

subsection \<open>Big-endian words\<close>

lemma Uint16_PutUint16: "BigEndian_Uint16 (BigEndian_PutUint16 v) = v"
  unfolding BigEndian_Uint16_def BigEndian_PutUint16_def
  by (rule bit_word_eqI) (auto simp add: bit_simps)

lemma length_PutUint16: "length (BigEndian_PutUint16 v) = 2"
  by (simp add: BigEndian_PutUint16_def)

lemma length_PutUint32: "length (BigEndian_PutUint32 v) = 4"
  by (simp add: BigEndian_PutUint32_def)

subsection \<open>The two flag bytes\<close>

lemma test_bit_byte: "(w AND 2 ^ n \<noteq> 0) = bit (w::byte) n"
  by (simp add: and_exp_eq_0_iff_not_bit)

lemmas flags_defs = responseFlags_def Let_def boolToUint16_def OPCODE_Mask_def

lemma byte_index_cases:
  assumes "n < LENGTH(8)"
  shows "n \<in> {0, 1, 2, 3, 4, 5, 6, 7}"
  using assms by simp arith

lemma flags_QR: "(ucast (drop_bit 8 (responseFlags h)) :: byte) AND 0x80 \<noteq> 0"
  using test_bit_byte [of "ucast (drop_bit 8 (responseFlags h))" 7]
  by (simp add: flags_defs bit_simps)

lemma flags_OPCODE:
  "drop_bit 3 (ucast (drop_bit 8 (responseFlags h)) :: byte) AND 0x0F = OPCODE h AND 0x0F"
  (is "?l = ?r")
proof (rule bit_word_eqI)
  fix n assume "n < LENGTH(8)"
  from byte_index_cases [OF this] show "bit ?l n = bit ?r n"
    by (elim insertE emptyE) (simp_all add: flags_defs bit_simps)
qed

lemma flags_AA: "((ucast (drop_bit 8 (responseFlags h)) :: byte) AND 0x04 \<noteq> 0) = AA h"
  using test_bit_byte [of "ucast (drop_bit 8 (responseFlags h))" 2]
  by (simp add: flags_defs bit_simps)

lemma flags_TC: "((ucast (drop_bit 8 (responseFlags h)) :: byte) AND 0x02 \<noteq> 0) = TC h"
  using test_bit_byte [of "ucast (drop_bit 8 (responseFlags h))" 1]
  by (simp add: flags_defs bit_simps)

lemma flags_RD: "((ucast (drop_bit 8 (responseFlags h)) :: byte) AND 1 \<noteq> 0) = RD h"
  using test_bit_byte [of "ucast (drop_bit 8 (responseFlags h))" 0]
  by (simp add: flags_defs bit_simps)

lemma flags_RA: "((ucast (responseFlags h) :: byte) AND 0x80 \<noteq> 0) = RA h"
  using test_bit_byte [of "ucast (responseFlags h)" 7]
  by (simp add: flags_defs bit_simps)

lemma flags_Z: "drop_bit 4 (ucast (responseFlags h) :: byte) AND 0x07 = Z h AND 0x07"
  (is "?l = ?r")
proof (rule bit_word_eqI)
  fix n assume "n < LENGTH(8)"
  from byte_index_cases [OF this] show "bit ?l n = bit ?r n"
    by (elim insertE emptyE) (simp_all add: flags_defs bit_simps)
qed

lemma flags_RCODE: "(ucast (responseFlags h) :: byte) AND 0x0F = RCODE h AND 0x0F"
  (is "?l = ?r")
proof (rule bit_word_eqI)
  fix n assume "n < LENGTH(8)"
  from byte_index_cases [OF this] show "bit ?l n = bit ?r n"
    by (elim insertE emptyE) (simp_all add: flags_defs bit_simps)
qed

lemma responseFlags_QR_update: "responseFlags (h\<lparr>QR := b\<rparr>) = responseFlags h"
  by (simp add: responseFlags_def)

subsection \<open>Decoding what \<open>buildResponse\<close> wrote\<close>

lemma buildResponse_header: "fst (buildResponse h) = h\<lparr>QR := True\<rparr>"
  by (simp add: buildResponse_def Let_def)

lemma buildResponse_bytes:
  "snd (buildResponse h) =
     [ucast (drop_bit 8 (ID h)), ucast (ID h),
      ucast (drop_bit 8 (responseFlags h)), ucast (responseFlags h),
      ucast (drop_bit 8 (QDCOUNT h)), ucast (QDCOUNT h),
      ucast (drop_bit 8 (ANCOUNT h)), ucast (ANCOUNT h),
      ucast (drop_bit 8 (NSCOUNT h)), ucast (NSCOUNT h),
      ucast (drop_bit 8 (ARCOUNT h)), ucast (ARCOUNT h)]"
  by (simp add: buildResponse_def Let_def BigEndian_PutUint16_def responseFlags_QR_update)

lemma Uint16_pair: "BigEndian_Uint16 [ucast (drop_bit 8 v), ucast v] = v"
  using Uint16_PutUint16 [of v] by (simp add: BigEndian_PutUint16_def)

lemma parse_build:
  "parseDnsHeader (snd (buildResponse h)) =
     Inr \<lparr>ID = ID h, QR = True, OPCODE = OPCODE h AND 0x0F, AA = AA h, TC = TC h,
          RD = RD h, RA = RA h, Z = Z h AND 0x07, RCODE = RCODE h AND 0x0F,
          QDCOUNT = QDCOUNT h, ANCOUNT = ANCOUNT h, NSCOUNT = NSCOUNT h,
          ARCOUNT = ARCOUNT h\<rparr>"
  unfolding buildResponse_bytes parseDnsHeader_def
  by (simp add: slice_def Uint16_pair flags_QR flags_OPCODE flags_AA flags_TC flags_RD
      flags_RA flags_Z flags_RCODE AA_Mask_def TC_Mask_def RD_Mask_def OPCODE_Shift_def
      OPCODE_Mask_def)

lemma in_width_4: "(x::byte) < 16 \<Longrightarrow> x AND 0x0F = x"
  using less_mask_eq [of x 4] by (simp add: mask_eq_exp_minus_1)

lemma in_width_3: "(x::byte) < 8 \<Longrightarrow> x AND 0x07 = x"
  using less_mask_eq [of x 3] by (simp add: mask_eq_exp_minus_1)

lemma masked_twice_4: "(ucast (x AND 0x0F :: byte) :: uint16) AND 0x0F = ucast x AND 0x0F"
  by (simp add: unsigned_and_eq and.assoc)

lemma masked_twice_3: "(ucast (x AND 0x07 :: byte) :: uint16) AND 0x07 = ucast x AND 0x07"
  by (simp add: unsigned_and_eq and.assoc)

lemma parse_build_valid:
  assumes "OPCODE h < 16" and "Z h < 8" and "RCODE h < 16"
  shows "parseDnsHeader (snd (buildResponse h)) = Inr (h\<lparr>QR := True\<rparr>)"
  using assms by (simp add: parse_build in_width_4 in_width_3)

text \<open>
  Claim C1, as stated: for every header \<open>h\<close> with \<open>OPCODE < 16\<close>, \<open>Z < 8\<close> and
  \<open>RCODE < 16\<close>, decoding with \<open>parseDnsHeader\<close> the twelve bytes that \<open>buildResponse\<close>
  wrote for \<open>h\<close> gives a header equal to \<open>h\<close>, the field \<open>QR\<close> included. It fails at a
  query header: the header is within the widths, and the header decoded from its
  response bytes differs from it.
\<close>

theorem C1_roundtrip_query_counterexample:
  "OPCODE queryHeader < 16 \<and> Z queryHeader < 8 \<and> RCODE queryHeader < 16 \<and>
   parseDnsHeader (snd (buildResponse queryHeader)) \<noteq> Inr queryHeader"
proof -
  have "parseDnsHeader (snd (buildResponse queryHeader)) = Inr (queryHeader\<lparr>QR := True\<rparr>)"
    by (rule parse_build_valid) (simp_all add: queryHeader_def)
  then show ?thesis by (simp add: queryHeader_def)
qed

text \<open>
  Claim C1, amended: for every header \<open>h\<close> with \<open>OPCODE < 16\<close>, \<open>Z < 8\<close> and
  \<open>RCODE < 16\<close>, decoding the bytes that \<open>buildResponse\<close> wrote for \<open>h\<close> gives \<open>h\<close> with
  \<open>QR\<close> set, which is the header that \<open>buildResponse\<close> leaves to its caller; the decoded
  header equals \<open>h\<close> exactly when \<open>QR\<close> was set in \<open>h\<close>.
\<close>

theorem C1_roundtrip_up_to_QR:
  assumes "OPCODE h < 16" and "Z h < 8" and "RCODE h < 16"
  shows "parseDnsHeader (snd (buildResponse h)) = Inr (h\<lparr>QR := True\<rparr>) \<and>
         parseDnsHeader (snd (buildResponse h)) = Inr (fst (buildResponse h)) \<and>
         (parseDnsHeader (snd (buildResponse h)) = Inr h) = QR h"
proof -
  have eq: "parseDnsHeader (snd (buildResponse h)) = Inr (h\<lparr>QR := True\<rparr>)"
    using assms by (rule parse_build_valid)
  have "(h\<lparr>QR := True\<rparr> = h) = QR h"
    by (cases h) auto
  with eq show ?thesis by (simp add: buildResponse_header)
qed

theorem C1_roundtrip_up_to_QR_witness:
  "OPCODE queryHeader < 16 \<and> Z queryHeader < 8 \<and> RCODE queryHeader < 16 \<and>
   parseDnsHeader (snd (buildResponse queryHeader)) = Inr (queryHeader\<lparr>QR := True\<rparr>) \<and>
   parseDnsHeader (snd (buildResponse (queryHeader\<lparr>QR := True\<rparr>))) = Inr (queryHeader\<lparr>QR := True\<rparr>)"
proof -
  have v: "OPCODE queryHeader < 16" "Z queryHeader < 8" "RCODE queryHeader < 16"
    by (simp_all add: queryHeader_def)
  have v': "OPCODE (queryHeader\<lparr>QR := True\<rparr>) < 16" "Z (queryHeader\<lparr>QR := True\<rparr>) < 8"
    "RCODE (queryHeader\<lparr>QR := True\<rparr>) < 16"
    by (simp_all add: queryHeader_def)
  show ?thesis
    using v C1_roundtrip_up_to_QR [OF v] C1_roundtrip_up_to_QR [OF v'] by simp
qed

text \<open>
  Claim C4: \<open>parseDnsHeader\<close> on the twelve bytes of the test, two zero bytes and then
  \<open>0x01, 0x02, 0x01, 0x02, 0x03, 0x04, 0x05, 0x06, 0x07, 0x08\<close>, succeeds with
  \<open>QR = false\<close>, \<open>OPCODE = 0\<close>, \<open>AA = false\<close>, \<open>TC = false\<close>, \<open>RD = true\<close>, \<open>RA = false\<close>,
  \<open>Z = 0\<close>, \<open>RCODE = 2\<close> and the four counts \<open>0x0102\<close>, \<open>0x0304\<close>, \<open>0x0506\<close>, \<open>0x0708\<close>;
  and on any twelve bytes each flag is the stated shift and mask of bytes 2 and 3.
\<close>

theorem C4_parseDnsHeader_bit_packing:
  "parseDnsHeader [0, 0, 0x01, 0x02, 0x01, 0x02, 0x03, 0x04, 0x05, 0x06, 0x07, 0x08] =
     Inr \<lparr>ID = 0, QR = False, OPCODE = 0, AA = False, TC = False, RD = True, RA = False,
          Z = 0, RCODE = 2, QDCOUNT = 0x0102, ANCOUNT = 0x0304, NSCOUNT = 0x0506,
          ARCOUNT = 0x0708\<rparr> \<and>
   parseDnsHeader [b0, b1, b2, b3, b4, b5, b6, b7, b8, b9, b10, b11] =
     Inr \<lparr>ID = ucast b1 OR push_bit 8 (ucast b0),
          QR = (b2 AND 0x80 \<noteq> 0),
          OPCODE = drop_bit 3 b2 AND 0x0F,
          AA = (b2 AND 0x04 \<noteq> 0),
          TC = (b2 AND 0x02 \<noteq> 0),
          RD = (b2 AND 0x01 \<noteq> 0),
          RA = (b3 AND 0x80 \<noteq> 0),
          Z = drop_bit 4 b3 AND 0x07,
          RCODE = b3 AND 0x0F,
          QDCOUNT = ucast b5 OR push_bit 8 (ucast b4),
          ANCOUNT = ucast b7 OR push_bit 8 (ucast b6),
          NSCOUNT = ucast b9 OR push_bit 8 (ucast b8),
          ARCOUNT = ucast b11 OR push_bit 8 (ucast b10)\<rparr>"
  by (simp add: parseDnsHeader_def BigEndian_Uint16_def slice_def AA_Mask_def TC_Mask_def
      RD_Mask_def OPCODE_Shift_def OPCODE_Mask_def)

text \<open>
  Claim C5: on every buffer shorter than twelve bytes \<open>parseDnsHeader\<close> returns its
  error for truncated input, "buffer too short", and no header; on every buffer of at
  least twelve bytes it returns a header and not this error.
\<close>

theorem C5_parseDnsHeader_truncated:
  "(length buf < 12 \<longrightarrow> parseDnsHeader buf = Inl (Errorf ''buffer too short'')) \<and>
   (12 \<le> length buf \<longrightarrow> (\<exists>h. parseDnsHeader buf = Inr h))"
  by (simp add: parseDnsHeader_def)

theorem C5_parseDnsHeader_truncated_witness:
  "length [0x01 :: byte] < 12 \<and>
   parseDnsHeader [0x01] = Inl (Errorf ''buffer too short'') \<and>
   12 \<le> length (replicate 12 (0 :: byte)) \<and>
   (\<exists>h. parseDnsHeader (replicate 12 0) = Inr h)"
  using C5_parseDnsHeader_truncated [of "[0x01]"]
    C5_parseDnsHeader_truncated [of "replicate 12 0"]
  by simp

text \<open>
  Claim C9: for every header, also with \<open>OPCODE\<close>, \<open>Z\<close> or \<open>RCODE\<close> beyond its width,
  \<open>buildResponse\<close> writes exactly twelve bytes, and the fields are masked to their
  widths before they are shifted: the bits beyond the width change no other field, so
  the bytes decode to \<open>OPCODE AND 0x0F\<close>, \<open>Z AND 0x07\<close>, \<open>RCODE AND 0x0F\<close> and to every
  other field as it was given (\<open>QR\<close> set), and they are the bytes written for the header
  with the three fields masked beforehand.
\<close>

theorem C9_buildResponse_masks_fields:
  "length (snd (buildResponse h)) = 12 \<and>
   parseDnsHeader (snd (buildResponse h)) =
     Inr \<lparr>ID = ID h, QR = True, OPCODE = OPCODE h AND 0x0F, AA = AA h, TC = TC h,
          RD = RD h, RA = RA h, Z = Z h AND 0x07, RCODE = RCODE h AND 0x0F,
          QDCOUNT = QDCOUNT h, ANCOUNT = ANCOUNT h, NSCOUNT = NSCOUNT h,
          ARCOUNT = ARCOUNT h\<rparr> \<and>
   snd (buildResponse h) =
     snd (buildResponse (h\<lparr>OPCODE := OPCODE h AND 0x0F, Z := Z h AND 0x07,
                            RCODE := RCODE h AND 0x0F\<rparr>))"
proof -
  have "responseFlags (h\<lparr>OPCODE := OPCODE h AND 0x0F, Z := Z h AND 0x07,
                         RCODE := RCODE h AND 0x0F\<rparr>) = responseFlags h"
    unfolding flags_defs by (simp add: masked_twice_4 masked_twice_3)
  then show ?thesis
    by (simp add: parse_build) (simp add: buildResponse_bytes)
qed

text \<open>
  Claim C10: for every header \<open>h\<close> with \<open>OPCODE < 16\<close>, \<open>Z < 8\<close> and \<open>RCODE < 16\<close>, the
  twelve bytes that \<open>buildResponse\<close> wrote decode to a header with the \<open>ID\<close>, \<open>OPCODE\<close>,
  \<open>AA\<close>, \<open>TC\<close>, \<open>RD\<close>, \<open>RA\<close>, \<open>Z\<close>, \<open>RCODE\<close> and the four counts of \<open>h\<close>, and with \<open>QR\<close>
  set whatever \<open>QR\<close> was in \<open>h\<close>.
\<close>

theorem C10_buildResponse_frame:
  assumes "OPCODE h < 16" and "Z h < 8" and "RCODE h < 16"
  shows "\<exists>h'. parseDnsHeader (snd (buildResponse h)) = Inr h' \<and>
           ID h' = ID h \<and> OPCODE h' = OPCODE h \<and> AA h' = AA h \<and> TC h' = TC h \<and>
           RD h' = RD h \<and> RA h' = RA h \<and> Z h' = Z h \<and> RCODE h' = RCODE h \<and>
           QDCOUNT h' = QDCOUNT h \<and> ANCOUNT h' = ANCOUNT h \<and> NSCOUNT h' = NSCOUNT h \<and>
           ARCOUNT h' = ARCOUNT h \<and> QR h'"
  using parse_build_valid [OF assms] by simp

theorem C10_buildResponse_frame_witness:
  "OPCODE queryHeader < 16 \<and> Z queryHeader < 8 \<and> RCODE queryHeader < 16 \<and>
   \<not> QR queryHeader \<and>
   (\<exists>h'. parseDnsHeader (snd (buildResponse queryHeader)) = Inr h' \<and>
      ID h' = 0x1081 \<and> OPCODE h' = 0 \<and> RD h' \<and> QDCOUNT h' = 1 \<and> QR h')"
proof -
  have v: "OPCODE queryHeader < 16" "Z queryHeader < 8" "RCODE queryHeader < 16"
    by (simp_all add: queryHeader_def)
  from C10_buildResponse_frame [OF v] obtain h' where
    "parseDnsHeader (snd (buildResponse queryHeader)) = Inr h'"
    "ID h' = ID queryHeader" "OPCODE h' = OPCODE queryHeader" "RD h' = RD queryHeader"
    "QDCOUNT h' = QDCOUNT queryHeader" "QR h'"
    by blast
  then show ?thesis
    using v by (simp add: queryHeader_def)
qed


section \<open>Properties of the name, question and answer encoders\<close>

subsection \<open>The label loop in closed form\<close>

lemma serializeLabels_concat:
  "serializeLabels buf labels =
     buf @ concat (map (\<lambda>label. of_nat (length label) # label) labels)"
  by (induction labels arbitrary: buf) simp_all

lemma DNSQuestion_Serialize_bytes:
  "DNSQuestion_Serialize q =
     concat (map (\<lambda>label. of_nat (length label) # label)
       (strings_Split (DNSQuestion.Name q) dot)) @
     0 # BigEndian_PutUint16 (DNSQuestion.Type q) @ BigEndian_PutUint16 (DNSQuestion.Class q)"
  by (simp add: DNSQuestion_Serialize_def Let_def serializeLabels_concat)

lemma DNSAnswer_Serialize_bytes:
  "DNSAnswer_Serialize a =
     concat (map (\<lambda>label. of_nat (length label) # label)
       (strings_Split (DNSAnswer.Name a) dot)) @
     0 # BigEndian_PutUint16 (DNSAnswer.Type a) @ BigEndian_PutUint16 (DNSAnswer.Class a) @
     BigEndian_PutUint32 (TTL a) @ BigEndian_PutUint16 (RDLength a) @ RData a"
  by (simp add: DNSAnswer_Serialize_def Let_def serializeLabels_concat)

lemma unat_length_byte: "unat (of_nat n :: byte) = n mod 256"
  by (simp add: unat_of_nat)

subsection \<open>Splitting and joining a name\<close>

lemma strings_Split_not_Nil: "strings_Split s sep \<noteq> []"
  by (induction s) (auto split: list.splits)

lemma strings_Join_Cons:
  "pieces \<noteq> [] \<Longrightarrow> strings_Join (piece # pieces) sep = piece @ sep # strings_Join pieces sep"
  by (cases pieces) simp_all

lemma strings_Join_Split: "strings_Join (strings_Split s sep) sep = s"
proof (induction s)
  case Nil
  show ?case by simp
next
  case (Cons c cs)
  obtain piece pieces where split: "strings_Split cs sep = piece # pieces"
    using strings_Split_not_Nil [of cs sep] by (cases "strings_Split cs sep") auto
  show ?case
  proof (cases "c = sep")
    case True
    with Cons show ?thesis
      by (simp add: strings_Join_Cons strings_Split_not_Nil)
  next
    case False
    from Cons split have "strings_Join (piece # pieces) sep = cs" by simp
    with False split show ?thesis
      by (cases pieces) simp_all
  qed
qed

subsection \<open>Reading back the labels that were written\<close>

lemma parseLabels_label:
  assumes "1 \<le> length label" and "length label \<le> 255"
  shows "parseLabels name ((of_nat (length label) # label) @ others) =
           parseLabels (name @ [label]) others"
proof -
  have size: "unat (of_nat (length label) :: byte) = length label"
    using assms by (simp add: unat_of_nat)
  show ?thesis
    using assms by (subst parseLabels.simps) (auto simp add: size slice_def Let_def)
qed

lemma parseLabels_end: "parseLabels name (0 # rest) = Inr (name, 0 # rest)"
  by (subst parseLabels.simps) simp

lemma parseLabels_serialized:
  assumes "\<forall>label \<in> set labels. 1 \<le> length label \<and> length label \<le> 255"
  shows "parseLabels name
           (concat (map (\<lambda>label. of_nat (length label) # label) labels) @ 0 # rest) =
         Inr (name @ labels, 0 # rest)"
  using assms
proof (induction labels arbitrary: name)
  case Nil
  show ?case by (simp add: parseLabels_end)
next
  case (Cons label labels)
  then have "1 \<le> length label" "length label \<le> 255" by simp_all
  from parseLabels_label [OF this] Cons show ?case by simp
qed

lemma parseDNSQuestion_Serialize:
  assumes "\<forall>label \<in> set (strings_Split (DNSQuestion.Name q) dot).
             1 \<le> length label \<and> length label \<le> 255"
  shows "parseDNSQuestion (DNSQuestion_Serialize q) = Inr q"
proof -
  have "parseLabels [] (DNSQuestion_Serialize q) =
          Inr (strings_Split (DNSQuestion.Name q) dot,
               0 # BigEndian_PutUint16 (DNSQuestion.Type q) @
                   BigEndian_PutUint16 (DNSQuestion.Class q))"
    using parseLabels_serialized [OF assms, of "[]"]
    by (simp add: DNSQuestion_Serialize_bytes)
  moreover have "BigEndian_Uint16 (slice (BigEndian_PutUint16 v @ others) 0 2) = v" for v others
    by (simp add: slice_def length_PutUint16 Uint16_PutUint16)
  moreover have "BigEndian_Uint16 (slice (BigEndian_PutUint16 v) 0 2) = v" for v
    by (simp add: slice_def length_PutUint16 Uint16_PutUint16)
  moreover have "drop 2 (BigEndian_PutUint16 v @ others) = others" for v others
    by (simp add: length_PutUint16)
  ultimately show ?thesis
    by (cases q) (simp add: parseDNSQuestion_def Let_def strings_Join_Split length_PutUint16)
qed

text \<open>
  Claim C6, as stated: name encoding returns the error \<open>LabelTooLong\<close>, and emits no
  byte, if and only if some label is longer than 63 bytes. It fails at a name of one
  label of 64 bytes: \<open>Serialize\<close> returns bytes, the length byte 64, the label, the
  terminator, the type and the class.
\<close>

theorem C6_label_of_64_bytes_counterexample:
  "strings_Split longName dot = [longName] \<and> 63 < length longName \<and>
   DNSQuestion_Serialize \<lparr>DNSQuestion.Name = longName, DNSQuestion.Type = 1,
       DNSQuestion.Class = 1\<rparr> =
     64 # longName @ [0, 0, 1, 0, 1]"
proof -
  have split: "strings_Split (replicate n 97) dot = [replicate n 97]" for n
    by (induction n) (simp_all add: dot_def)
  show ?thesis
    by (simp add: DNSQuestion_Serialize_bytes longName_def split BigEndian_PutUint16_def)
qed

text \<open>
  Claim C6, amended: for every name, the encoding of both \<open>Serialize\<close> methods emits, for
  each label of the name in order, one length byte equal to the label's byte length
  modulo 256 (the byte length itself for a label of at most 255 bytes) followed by the
  label's raw bytes, and terminates the sequence with a single zero byte, before the
  fields that follow the name; it has no error result, and a label longer than 63 bytes
  is encoded like any other.
\<close>

theorem C6_serialize_name:
  "DNSQuestion_Serialize q =
     concat (map (\<lambda>label. of_nat (length label) # label)
       (strings_Split (DNSQuestion.Name q) dot)) @
     0 # BigEndian_PutUint16 (DNSQuestion.Type q) @ BigEndian_PutUint16 (DNSQuestion.Class q) \<and>
   take (length (concat (map (\<lambda>label. of_nat (length label) # label)
       (strings_Split (DNSAnswer.Name a) dot))) + 1) (DNSAnswer_Serialize a) =
     concat (map (\<lambda>label. of_nat (length label) # label)
       (strings_Split (DNSAnswer.Name a) dot)) @ [0] \<and>
   unat (of_nat (length (label :: gostring)) :: byte) = length label mod 256"
  by (simp add: DNSQuestion_Serialize_bytes DNSAnswer_Serialize_bytes unat_length_byte)

text \<open>
  Claim C7, as stated: the \<open>RDLENGTH\<close> field that answer encoding writes is computed
  from the \<open>RDATA\<close> and not taken from a field the caller supplies. It fails at an answer
  with four bytes of \<open>RDATA\<close> and \<open>RDLength = 0\<close>: the two bytes before the \<open>RDATA\<close> are
  those of \<open>RDLength\<close>, and not those of the length of the \<open>RDATA\<close>.
\<close>

theorem C7_stale_RDLength_counterexample:
  "DNSAnswer_Serialize staleAnswer =
     [1, 97, 0, 0, 1, 0, 1, 0, 0, 0, 60, 0, 0, 8, 8, 8, 8] \<and>
   RData staleAnswer = [8, 8, 8, 8] \<and>
   slice (DNSAnswer_Serialize staleAnswer) 11 13 = BigEndian_PutUint16 (RDLength staleAnswer) \<and>
   slice (DNSAnswer_Serialize staleAnswer) 11 13 \<noteq>
     BigEndian_PutUint16 (of_nat (length (RData staleAnswer)))"
  by (simp add: DNSAnswer_Serialize_bytes staleAnswer_def dot_def BigEndian_PutUint16_def
      BigEndian_PutUint32_def slice_def)

text \<open>
  Claim C7, amended: for every answer, answer encoding writes the encoded name, then
  \<open>Type\<close>, \<open>Class\<close> and \<open>TTL\<close> big-endian, then an \<open>RDLENGTH\<close> field whose 16-bit value is
  the \<open>RDLength\<close> field of the answer, as the caller supplied it, followed by the \<open>RDATA\<close>
  bytes; the field is the byte length of the \<open>RDATA\<close> when the caller set \<open>RDLength\<close> to it.
\<close>

theorem C7_serialize_answer:
  "DNSAnswer_Serialize a =
     (concat (map (\<lambda>label. of_nat (length label) # label)
        (strings_Split (DNSAnswer.Name a) dot)) @ [0]) @
     BigEndian_PutUint16 (DNSAnswer.Type a) @ BigEndian_PutUint16 (DNSAnswer.Class a) @
     BigEndian_PutUint32 (TTL a) @ BigEndian_PutUint16 (RDLength a) @ RData a \<and>
   BigEndian_Uint16 (BigEndian_PutUint16 (RDLength a)) = RDLength a \<and>
   DNSAnswer_Serialize (a\<lparr>RDLength := of_nat (length (RData a))\<rparr>) =
     (concat (map (\<lambda>label. of_nat (length label) # label)
        (strings_Split (DNSAnswer.Name a) dot)) @ [0]) @
     BigEndian_PutUint16 (DNSAnswer.Type a) @ BigEndian_PutUint16 (DNSAnswer.Class a) @
     BigEndian_PutUint32 (TTL a) @ BigEndian_PutUint16 (of_nat (length (RData a))) @ RData a"
  by (simp add: DNSAnswer_Serialize_bytes Uint16_PutUint16)

text \<open>
  Claim C8: for every name given as a list of non-empty labels, each of 1 to 63 bytes,
  with an encoded length of at most 255 bytes, the label loop of \<open>parseDNSQuestion\<close>,
  run from the start of the bytes that the label loop of \<open>Serialize\<close> and its terminator
  wrote, yields the original labels and stops at the terminator; and a question whose
  name has these labels is read back by \<open>parseDNSQuestion\<close> from its \<open>Serialize\<close>.
\<close>

theorem C8_name_roundtrip:
  assumes "\<forall>label \<in> set labels. 1 \<le> length label \<and> length label \<le> 63"
    and "length (serializeLabels [] labels @ [0]) \<le> 255"
  shows "parseLabels [] (serializeLabels [] labels @ 0 # rest) = Inr (labels, 0 # rest) \<and>
         (strings_Split (DNSQuestion.Name q) dot = labels \<longrightarrow>
            parseDNSQuestion (DNSQuestion_Serialize q) = Inr q)"
proof -
  from assms(1) have fits: "\<forall>label \<in> set labels. 1 \<le> length label \<and> length label \<le> 255"
    by auto
  from parseLabels_serialized [OF fits, of "[]" rest]
  have "parseLabels [] (serializeLabels [] labels @ 0 # rest) = Inr (labels, 0 # rest)"
    by (simp add: serializeLabels_concat)
  moreover have "parseDNSQuestion (DNSQuestion_Serialize q) = Inr q"
    if "strings_Split (DNSQuestion.Name q) dot = labels"
    using fits that by (intro parseDNSQuestion_Serialize) simp
  ultimately show ?thesis by simp
qed

theorem C8_name_roundtrip_witness:
  "list_all (\<lambda>label. 1 \<le> length label \<and> length label \<le> 63)
     [bytesOf ''abc'', bytesOf ''com''] \<and>
   length (serializeLabels [] [bytesOf ''abc'', bytesOf ''com''] @ [0]) \<le> 255 \<and>
   parseLabels [] (serializeLabels [] [bytesOf ''abc'', bytesOf ''com''] @ [0, 0, 1, 0, 1]) =
     Inr ([bytesOf ''abc'', bytesOf ''com''], [0, 0, 1, 0, 1]) \<and>
   strings_Split (bytesOf ''abc.com'') dot = [bytesOf ''abc'', bytesOf ''com''] \<and>
   parseDNSQuestion (DNSQuestion_Serialize
       \<lparr>DNSQuestion.Name = bytesOf ''abc.com'', DNSQuestion.Type = 1, DNSQuestion.Class = 1\<rparr>) =
     Inr \<lparr>DNSQuestion.Name = bytesOf ''abc.com'', DNSQuestion.Type = 1, DNSQuestion.Class = 1\<rparr>"
proof -
  have h1: "\<forall>label \<in> set [bytesOf ''abc'', bytesOf ''com'']. 1 \<le> length label \<and> length label \<le> 63"
    by (simp add: bytesOf_def)
  have h2: "length (serializeLabels [] [bytesOf ''abc'', bytesOf ''com''] @ [0]) \<le> 255"
    by (simp add: bytesOf_def)
  have split: "strings_Split (bytesOf ''abc.com'') dot = [bytesOf ''abc'', bytesOf ''com'']"
    by (simp add: bytesOf_def dot_def)
  from C8_name_roundtrip [OF h1 h2, of "[0, 1, 0, 1]"
      "\<lparr>DNSQuestion.Name = bytesOf ''abc.com'', DNSQuestion.Type = 1, DNSQuestion.Class = 1\<rparr>"]
  show ?thesis using h1 h2 split by simp
qed


subsection \<open>The parser of one question on the message of the test\<close>

text \<open>
  \<open>parseDNSQuestion\<close>, called as \<open>handleDNSRequest\<close> calls it, on the bytes after the
  header, reads the first question of the message of the test. Called on the bytes of
  the second question, it takes the pointer byte 192 for the length of a label and
  panics on the slice bound: it does not decode compressed names.
\<close>

lemma parseDNSQuestion_testMessage:
  "parseDNSQuestion (drop 12 testMessage) =
     Inr \<lparr>DNSQuestion.Name = bytesOf ''abc.longassdomainname.com'', DNSQuestion.Type = 1,
          DNSQuestion.Class = 1\<rparr> \<and>
   parseDNSQuestion (drop 43 testMessage) = Inl Panic"
  by code_simp

section \<open>Properties of the decoder of compressed names\<close>

subsection \<open>What a buffer holds at an offset\<close>

lemma drop_eq_Cons:
  assumes "drop off buf = x # xs"
  shows "off < length buf" and "buf ! off = x" and "drop (Suc off) buf = xs"
proof -
  show less: "off < length buf"
    using assms by (cases "off < length buf") simp_all
  from less assms show "buf ! off = x"
    by (simp add: hd_drop_conv_nth [symmetric])
  from assms show "drop (Suc off) buf = xs"
    by (simp add: drop_Suc tl_drop [symmetric])
qed

lemma drop_eq_append:
  assumes "drop off buf = xs @ ys"
  shows "off + length xs + length ys = max off (length buf)"
    and "take (length xs) (drop off buf) = xs"
    and "drop (off + length xs) buf = ys"
proof -
  from assms have "length (drop off buf) = length xs + length ys" by simp
  then show "off + length xs + length ys = max off (length buf)" by simp
  from assms show "take (length xs) (drop off buf) = xs" by simp
  have "drop (off + length xs) buf = drop (length xs) (drop off buf)"
    by (simp add: add.commute)
  with assms show "drop (off + length xs) buf = ys" by simp
qed

subsection \<open>Length bytes\<close>

lemma label_length_byte:
  assumes "1 \<le> n" and "n \<le> 63"
  shows "(of_nat n :: byte) \<noteq> 0" and "(of_nat n :: byte) AND 0xC0 = 0"
    and "unat (of_nat n :: byte) = n"
proof -
  show size: "unat (of_nat n :: byte) = n"
    using assms by (simp add: unat_of_nat)
  with assms show "(of_nat n :: byte) \<noteq> 0"
    by (metis not_one_le_zero unat_0)
  have "(of_nat n :: byte) < 2 ^ 6"
    using assms size by (simp add: word_less_nat_alt)
  then have "(of_nat n :: byte) AND mask 6 = of_nat n"
    by (rule less_mask_eq)
  then have "(of_nat n :: byte) AND 0xC0 = (of_nat n AND mask 6) AND 0xC0"
    by simp
  also have "\<dots> = of_nat n AND (mask 6 AND 0xC0)"
    by (simp only: and.assoc)
  also have "(mask 6 :: byte) AND 0xC0 = 0"
    by (simp add: mask_eq_exp_minus_1)
  finally show "(of_nat n :: byte) AND 0xC0 = 0" by simp
qed

lemma pointer_byte:
  assumes "(b :: byte) AND 0xC0 = 0xC0"
  shows "b \<noteq> 0" and "b AND 0xC0 \<noteq> 0"
  using assms by auto

subsection \<open>Scanning terminators, pointers and labels\<close>

lemma scanLabels_terminator:
  assumes "drop off buf = 0 # rest"
  shows "scanLabels buf off = Inr ([], EndOfName (off + 1))"
  using drop_eq_Cons [OF assms] by (subst scanLabels.simps) simp

lemma scanLabels_pointer:
  assumes "drop off buf = hi # lo # rest" and "hi AND 0xC0 = 0xC0"
  shows "scanLabels buf off = Inr ([], PointerTo (pointerOffset hi lo) (off + 2))"
proof -
  note here = drop_eq_Cons [OF assms(1)]
  note there = drop_eq_Cons [OF here(3)]
  from here there pointer_byte [OF assms(2)] assms(2) show ?thesis
    by (subst scanLabels.simps) (simp add: Let_def)
qed

lemma scanLabels_label:
  assumes "drop off buf = (of_nat (length label) # label) @ rest"
    and "1 \<le> length label" and "length label \<le> 63" and "rest \<noteq> []"
  shows "scanLabels buf off =
           (case scanLabels buf (off + 1 + length label) of
              Inl e \<Rightarrow> Inl e
            | Inr (labels, ending) \<Rightarrow> Inr (label # labels, ending))"
proof -
  note byte = label_length_byte [OF assms(2,3)]
  from assms(1) have cons: "drop off buf = of_nat (length label) # label @ rest" by simp
  note here = drop_eq_Cons [OF cons]
  note span = drop_eq_append [OF here(3)]
  from span(1) assms(4) have fits: "off + 1 + length label < length buf"
    by (cases rest) (simp_all add: max_def split: if_splits)
  have content: "slice buf (off + 1) (off + 1 + length label) = label"
    using span(2) by (simp add: slice_def)
  from here byte fits content show ?thesis
    by (subst scanLabels.simps) (auto simp add: Let_def split: sum.splits)
qed

lemma scanLabels_serialized:
  assumes "\<forall>label \<in> set labels. 1 \<le> length label \<and> length label \<le> 63"
    and "drop off buf = serializeLabels [] labels @ rest" and "rest \<noteq> []"
  shows "scanLabels buf off =
           (case scanLabels buf (off + length (serializeLabels [] labels)) of
              Inl e \<Rightarrow> Inl e
            | Inr (others, ending) \<Rightarrow> Inr (labels @ others, ending))"
  using assms
proof (induction labels arbitrary: off)
  case Nil
  show ?case by (simp split: sum.splits)
next
  case (Cons label labels)
  let ?rest = "serializeLabels [] labels @ rest"
  from Cons.prems(2) have here: "drop off buf = (of_nat (length label) # label) @ ?rest"
    by (simp add: serializeLabels_concat)
  from Cons.prems(1) have size: "1 \<le> length label" "length label \<le> 63" by simp_all
  from Cons.prems(3) have more: "?rest \<noteq> []" by simp
  from here have "drop off buf = of_nat (length label) # label @ ?rest" by simp
  from drop_eq_append(3) [OF drop_eq_Cons(3) [OF this]]
  have next_labels: "drop (off + 1 + length label) buf = ?rest" by simp
  from Cons.prems(1) have "\<forall>label \<in> set labels. 1 \<le> length label \<and> length label \<le> 63"
    by simp
  note IH = Cons.IH [OF this next_labels Cons.prems(3)]
  have len: "off + length (serializeLabels [] (label # labels)) =
      off + 1 + length label + length (serializeLabels [] labels)"
    by (simp add: serializeLabels_concat)
  show ?case
    unfolding scanLabels_label [OF here size more] IH len
    by (simp split: sum.splits)
qed

subsection \<open>Decoding with hops\<close>

lemma decodeFrom_EndOfName:
  "scanLabels buf off = Inr (labels, EndOfName n) \<Longrightarrow> decodeFrom hops buf off = Inr (labels, n)"
  by (cases hops) simp_all

lemma decodeName_plain:
  assumes "\<forall>label \<in> set labels. 1 \<le> length label \<and> length label \<le> 63"
    and "drop off buf = serializeLabels [] labels @ 0 # rest"
  shows "decodeFrom hops buf off = Inr (labels, off + length (serializeLabels [] labels) + 1)"
proof -
  from drop_eq_append(3) [OF assms(2)]
  have "drop (off + length (serializeLabels [] labels)) buf = 0 # rest" .
  from scanLabels_terminator [OF this]
  have "scanLabels buf off =
      Inr (labels, EndOfName (off + length (serializeLabels [] labels) + 1))"
    unfolding scanLabels_serialized [OF assms(1,2), simplified] by simp
  then show ?thesis by (rule decodeFrom_EndOfName)
qed

lemma decodeName_pointer:
  assumes site: "\<forall>label \<in> set labels. 1 \<le> length label \<and> length label \<le> 63"
    "drop off buf = serializeLabels [] labels @ hi # lo # rest"
    "hi AND 0xC0 = 0xC0"
  shows "decodeFrom (Suc hops) buf off =
           (case decodeFrom hops buf (pointerOffset hi lo) of
              Inl e \<Rightarrow> Inl e
            | Inr (others, _) \<Rightarrow> Inr (labels @ others, off + length (serializeLabels [] labels) + 2))"
proof -
  from drop_eq_append(3) [OF site(2)]
  have "drop (off + length (serializeLabels [] labels)) buf = hi # lo # rest" .
  from scanLabels_pointer [OF this site(3)]
  have "scanLabels buf off =
      Inr (labels, PointerTo (pointerOffset hi lo) (off + length (serializeLabels [] labels) + 2))"
    unfolding scanLabels_serialized [OF site(1,2), simplified] by simp
  then show ?thesis by (auto split: sum.splits)
qed

lemma decodeQuestion_after_name:
  assumes "decodeName buf off = Inr (labels, n)"
    and "drop n buf = typeHi # typeLo # classHi # classLo # rest"
  shows "decodeQuestion buf off =
           Inr (\<lparr>QName = labels, QType = BigEndian_Uint16 [typeHi, typeLo],
                 QClass = BigEndian_Uint16 [classHi, classLo]\<rparr>, n + 4)"
proof -
  from assms(2) have four: "drop n buf = [typeHi, typeLo, classHi, classLo] @ rest" by simp
  from drop_eq_append(1) [OF four] have enough: "\<not> length buf < n + 4"
    by (simp add: max_def split: if_splits)
  have type_bytes: "slice buf n (n + 2) = [typeHi, typeLo]"
    using assms(2) by (simp add: slice_def)
  from drop_eq_append(3) [of n buf "[typeHi, typeLo]" "classHi # classLo # rest"] assms(2)
  have "drop (n + 2) buf = classHi # classLo # rest" by simp
  then have class_bytes: "slice buf (n + 2) (n + 4) = [classHi, classLo]"
    by (simp add: slice_def)
  from assms(1) enough type_bytes class_bytes show ?thesis
    by (simp add: decodeQuestion_def)
qed

lemma decodeMessage_testMessage:
  "decodeMessage testMessage =
     Inr \<lparr>MHeader = \<lparr>ID = 0x1081, QR = False, OPCODE = 0, AA = False, TC = False,
             RD = True, RA = False, Z = 0, RCODE = 0, QDCOUNT = 2, ANCOUNT = 0,
             NSCOUNT = 0, ARCOUNT = 0\<rparr>,
          MQuestions =
            [\<lparr>QName = [bytesOf ''abc'', bytesOf ''longassdomainname'', bytesOf ''com''],
               QType = 1, QClass = 1\<rparr>,
             \<lparr>QName = [bytesOf ''def'', bytesOf ''longassdomainname'', bytesOf ''com''],
               QType = 1, QClass = 1\<rparr>]\<rparr>"
  by code_simp

text \<open>
  Claim C2: the message of the test, with \<open>QDCOUNT = 2\<close>, decodes to the two questions
  \<open>abc.longassdomainname.com\<close> and \<open>def.longassdomainname.com\<close>; and in every message
  that holds a complete label sequence at offset \<open>X\<close> and a name that ends in a two-byte
  pointer (top two bits 11) whose 14-bit offset is \<open>X\<close>, decoding the question at the
  pointer site succeeds with the labels read at the site followed by the labels stored
  at \<open>X\<close>, the cursor right after the pointer for the name and after type and class for
  the question.
\<close>

theorem C2_pointer_appends_target:
  "(\<exists>m. decodeMessage testMessage = Inr m \<and> QDCOUNT (MHeader m) = 2 \<and>
      map (\<lambda>q. strings_Join (QName q) dot) (MQuestions m) =
        [bytesOf ''abc.longassdomainname.com'', bytesOf ''def.longassdomainname.com'']) \<and>
   ((\<forall>label \<in> set (siteLabels @ targetLabels). 1 \<le> length label \<and> length label \<le> 63) \<and>
    drop X buf = serializeLabels [] targetLabels @ 0 # restX \<and>
    drop p buf = serializeLabels [] siteLabels @ hi # lo # typeHi # typeLo # classHi # classLo # rest \<and>
    hi AND 0xC0 = 0xC0 \<and> pointerOffset hi lo = X
    \<longrightarrow>
    decodeName buf X = Inr (targetLabels, X + length (serializeLabels [] targetLabels) + 1) \<and>
    decodeName buf p =
      Inr (siteLabels @ targetLabels, p + length (serializeLabels [] siteLabels) + 2) \<and>
    decodeQuestion buf p =
      Inr (\<lparr>QName = siteLabels @ targetLabels, QType = BigEndian_Uint16 [typeHi, typeLo],
            QClass = BigEndian_Uint16 [classHi, classLo]\<rparr>,
           p + length (serializeLabels [] siteLabels) + 6))"
proof (intro conjI impI)
  show "\<exists>m. decodeMessage testMessage = Inr m \<and> QDCOUNT (MHeader m) = 2 \<and>
      map (\<lambda>q. strings_Join (QName q) dot) (MQuestions m) =
        [bytesOf ''abc.longassdomainname.com'', bytesOf ''def.longassdomainname.com'']"
    unfolding decodeMessage_testMessage by (simp add: bytesOf_def dot_def)
next
  assume hyps: "(\<forall>label \<in> set (siteLabels @ targetLabels). 1 \<le> length label \<and> length label \<le> 63) \<and>
    drop X buf = serializeLabels [] targetLabels @ 0 # restX \<and>
    drop p buf = serializeLabels [] siteLabels @ hi # lo # typeHi # typeLo # classHi # classLo # rest \<and>
    hi AND 0xC0 = 0xC0 \<and> pointerOffset hi lo = X"
  then have target: "\<forall>label \<in> set targetLabels. 1 \<le> length label \<and> length label \<le> 63"
    "drop X buf = serializeLabels [] targetLabels @ 0 # restX"
    and site: "\<forall>label \<in> set siteLabels. 1 \<le> length label \<and> length label \<le> 63"
    "drop p buf = serializeLabels [] siteLabels @ hi # lo # typeHi # typeLo # classHi # classLo # rest"
    "hi AND 0xC0 = 0xC0"
    and points: "pointerOffset hi lo = X"
    by auto
  from target(2) have "buf \<noteq> []" by auto
  then obtain hops where hops: "length buf = Suc hops"
    by (cases buf) simp_all
  show at_X: "decodeName buf X =
      Inr (targetLabels, X + length (serializeLabels [] targetLabels) + 1)"
    unfolding decodeName_def by (rule decodeName_plain [OF target])
  show at_p: "decodeName buf p =
      Inr (siteLabels @ targetLabels, p + length (serializeLabels [] siteLabels) + 2)"
    unfolding decodeName_def hops decodeName_pointer [OF site] points
    by (simp add: decodeName_plain [OF target])
  have "drop p buf = (serializeLabels [] siteLabels @ [hi, lo]) @ typeHi # typeLo # classHi # classLo # rest"
    using site(2) by simp
  from drop_eq_append(3) [OF this]
  have "drop (p + length (serializeLabels [] siteLabels) + 2) buf = typeHi # typeLo # classHi # classLo # rest"
    by (simp add: add.assoc)
  from decodeQuestion_after_name [OF at_p this]
  show "decodeQuestion buf p =
      Inr (\<lparr>QName = siteLabels @ targetLabels, QType = BigEndian_Uint16 [typeHi, typeLo],
            QClass = BigEndian_Uint16 [classHi, classLo]\<rparr>,
           p + length (serializeLabels [] siteLabels) + 6)"
    by (simp add: add.assoc)
qed

theorem C2_pointer_appends_target_witness:
  "drop 16 testMessage =
     serializeLabels [] [bytesOf ''longassdomainname'', bytesOf ''com''] @
     0 # [0, 1, 0, 1, 3, 100, 101, 102, 192, 16, 0, 1, 0, 1] \<and>
   drop 43 testMessage = serializeLabels [] [bytesOf ''def''] @ [192, 16, 0, 1, 0, 1] \<and>
   pointerOffset 192 16 = 16 \<and>
   decodeName testMessage 16 = Inr ([bytesOf ''longassdomainname'', bytesOf ''com''], 39) \<and>
   decodeName testMessage 43 =
     Inr ([bytesOf ''def'', bytesOf ''longassdomainname'', bytesOf ''com''], 49) \<and>
   decodeQuestion testMessage 43 =
     Inr (\<lparr>QName = [bytesOf ''def'', bytesOf ''longassdomainname'', bytesOf ''com''],
           QType = 1, QClass = 1\<rparr>, 53)"
proof -
  have sizes: "\<forall>label \<in> set ([bytesOf ''def''] @ [bytesOf ''longassdomainname'', bytesOf ''com'']).
      1 \<le> length label \<and> length label \<le> 63"
    by (simp add: bytesOf_def)
  have at_X: "drop 16 testMessage =
     serializeLabels [] [bytesOf ''longassdomainname'', bytesOf ''com''] @
     0 # [0, 1, 0, 1, 3, 100, 101, 102, 192, 16, 0, 1, 0, 1]"
    by (simp add: testMessage_def bytesOf_def)
  have at_p: "drop 43 testMessage =
     serializeLabels [] [bytesOf ''def''] @ 192 # 16 # 0 # 1 # 0 # 1 # []"
    by (simp add: testMessage_def bytesOf_def)
  have ptr: "(192 :: byte) AND 0xC0 = 0xC0" "pointerOffset 192 16 = 16"
    by (simp_all add: pointerOffset_def)
  have words: "BigEndian_Uint16 [0, 1] = 1"
    by (simp add: BigEndian_Uint16_def)
  from C2_pointer_appends_target [where siteLabels = "[bytesOf ''def'']"
      and targetLabels = "[bytesOf ''longassdomainname'', bytesOf ''com'']"
      and X = 16 and p = 43 and buf = testMessage and hi = 192 and lo = 16
      and typeHi = 0 and typeLo = 1 and classHi = 0 and classLo = 1 and rest = "[]"
      and restX = "[0, 1, 0, 1, 3, 100, 101, 102, 192, 16, 0, 1, 0, 1]"]
    sizes at_X at_p ptr
  have "decodeName testMessage 16 =
      Inr ([bytesOf ''longassdomainname'', bytesOf ''com''],
           16 + length (serializeLabels [] [bytesOf ''longassdomainname'', bytesOf ''com'']) + 1) \<and>
    decodeName testMessage 43 =
      Inr ([bytesOf ''def''] @ [bytesOf ''longassdomainname'', bytesOf ''com''],
           43 + length (serializeLabels [] [bytesOf ''def'']) + 2) \<and>
    decodeQuestion testMessage 43 =
      Inr (\<lparr>QName = [bytesOf ''def''] @ [bytesOf ''longassdomainname'', bytesOf ''com''],
            QType = BigEndian_Uint16 [0, 1], QClass = BigEndian_Uint16 [0, 1]\<rparr>,
           43 + length (serializeLabels [] [bytesOf ''def'']) + 6)"
    by blast
  moreover have "length (serializeLabels [] [bytesOf ''longassdomainname'', bytesOf ''com'']) = 22"
    "length (serializeLabels [] [bytesOf ''def'']) = 4"
    by (simp_all add: bytesOf_def)
  ultimately show ?thesis
    using at_X at_p ptr(2) words by simp
qed

subsection \<open>Bounded work and pointer cycles\<close>

lemma scanSteps_bound: "scanSteps buf off \<le> length buf - off + 1"
proof (induction buf off rule: scanSteps.induct)
  case (1 buf off)
  show ?case
  proof (cases "\<not> length buf \<le> off \<and> buf ! off \<noteq> 0 \<and> buf ! off AND 0xC0 = 0 \<and>
      \<not> length buf < off + 1 + unat (buf ! off)")
    case True
    with "1.IH" [of "buf ! off"]
    have "scanSteps buf (off + 1 + unat (buf ! off)) \<le>
        length buf - (off + 1 + unat (buf ! off)) + 1"
      by simp
    moreover from True have "scanSteps buf off = 1 + scanSteps buf (off + 1 + unat (buf ! off))"
      by (subst scanSteps.simps) (simp add: Let_def)
    ultimately show ?thesis
      using True by arith
  next
    case False
    then show ?thesis
      by (subst scanSteps.simps) (auto simp add: Let_def)
  qed
qed

lemma decodeSteps_bound: "decodeSteps hops buf off \<le> (hops + 1) * (length buf + 1)"
proof (induction hops arbitrary: off)
  case 0
  from scanSteps_bound [of buf off] show ?case by simp
next
  case (Suc hops)
  have scan: "scanSteps buf off \<le> length buf + 1"
    using scanSteps_bound [of buf off] by simp
  have "(case scanLabels buf off of
           Inr (labels, PointerTo target nextOffset) \<Rightarrow> decodeSteps hops buf target
         | _ \<Rightarrow> 0) \<le> (hops + 1) * (length buf + 1)"
    using Suc.IH by (simp split: sum.splits prod.splits name_end.splits)
  with scan show ?case by simp
qed

lemma decodeFrom_cycle:
  assumes closed: "\<forall>off \<in> S. \<exists>labels target n.
      scanLabels buf off = Inr (labels, PointerTo target n) \<and> target \<in> S"
    and start: "off \<in> S"
  shows "decodeFrom hops buf off = Inl CompressionLoop"
  using start
proof (induction hops arbitrary: off)
  case 0
  with closed obtain labels target n where
    "scanLabels buf off = Inr (labels, PointerTo target n)" by blast
  then show ?case by simp
next
  case (Suc hops)
  with closed obtain labels target n where
    scan: "scanLabels buf off = Inr (labels, PointerTo target n)" and "target \<in> S" by blast
  from Suc.IH [OF this(2)] scan show ?case by simp
qed

lemma decodeFrom_own_pointer:
  assumes sizes: "\<forall>label \<in> set labels. 1 \<le> length label \<and> length label \<le> 63"
    and name: "drop start buf = serializeLabels [] labels @ hi # lo # rest"
    and pointer: "hi AND 0xC0 = 0xC0"
    and target: "pointerOffset hi lo = start \<or>
      pointerOffset hi lo = start + length (serializeLabels [] labels)"
  shows "decodeFrom hops buf start = Inl CompressionLoop"
proof -
  let ?q = "start + length (serializeLabels [] labels)"
  from drop_eq_append(3) [OF name] have at_q: "drop ?q buf = hi # lo # rest" .
  note scan_q = scanLabels_pointer [OF at_q pointer]
  have scan_start: "scanLabels buf start = Inr (labels, PointerTo (pointerOffset hi lo) (?q + 2))"
    unfolding scanLabels_serialized [OF sizes name, simplified] scan_q by simp
  from target scan_q scan_start
  have "\<forall>off \<in> {start, ?q}. \<exists>labels target n.
      scanLabels buf off = Inr (labels, PointerTo target n) \<and> target \<in> {start, ?q}"
    by auto
  then show ?thesis by (rule decodeFrom_cycle) simp
qed

text \<open>
  Claim C3: on every buffer and offset, name decoding looks at no more length bytes than
  the square of the length of the message plus one, so it does a bounded amount of work
  (\<open>scanLabels\<close> terminates by the offset that grows, \<open>decodeFrom\<close> by the hops that are
  left); a name whose pointer points to its own offset or to the start of the name, and
  a name that starts in a set of offsets where every name ends in a pointer into the set
  again (a cycle), are rejected with \<open>CompressionLoop\<close>.
\<close>

theorem C3_compression_loop_guard:
  "decodeSteps (length buf) buf start \<le> (length buf + 1) * (length buf + 1) \<and>
   ((\<forall>label \<in> set labels. 1 \<le> length label \<and> length label \<le> 63) \<and>
    drop start buf = serializeLabels [] labels @ hi # lo # rest \<and>
    hi AND 0xC0 = 0xC0 \<and>
    (pointerOffset hi lo = start \<or>
     pointerOffset hi lo = start + length (serializeLabels [] labels))
    \<longrightarrow> decodeName buf start = Inl CompressionLoop) \<and>
   (start \<in> S \<and>
    (\<forall>off \<in> S. \<exists>labels target n.
       scanLabels buf off = Inr (labels, PointerTo target n) \<and> target \<in> S)
    \<longrightarrow> decodeName buf start = Inl CompressionLoop)"
proof (intro conjI impI)
  show "decodeSteps (length buf) buf start \<le> (length buf + 1) * (length buf + 1)"
    by (rule decodeSteps_bound)
next
  assume "(\<forall>label \<in> set labels. 1 \<le> length label \<and> length label \<le> 63) \<and>
    drop start buf = serializeLabels [] labels @ hi # lo # rest \<and>
    hi AND 0xC0 = 0xC0 \<and>
    (pointerOffset hi lo = start \<or>
     pointerOffset hi lo = start + length (serializeLabels [] labels))"
  then show "decodeName buf start = Inl CompressionLoop"
    unfolding decodeName_def using decodeFrom_own_pointer [of labels start buf hi lo rest]
    by blast
next
  assume "start \<in> S \<and>
    (\<forall>off \<in> S. \<exists>labels target n.
       scanLabels buf off = Inr (labels, PointerTo target n) \<and> target \<in> S)"
  then show "decodeName buf start = Inl CompressionLoop"
    unfolding decodeName_def using decodeFrom_cycle [of S buf start] by blast
qed

theorem C3_compression_loop_guard_witness:
  "decodeSteps (length selfPointer) selfPointer 12 \<le> 289 \<and>
   drop 12 selfPointer = serializeLabels [] [[97]] @ [0xC0, 14] \<and>
   pointerOffset 0xC0 14 = 12 + length (serializeLabels [] [[97 :: byte]]) \<and>
   decodeName selfPointer 12 = Inl CompressionLoop \<and>
   scanLabels twoCycle 12 = Inr ([], PointerTo 14 14) \<and>
   scanLabels twoCycle 14 = Inr ([], PointerTo 12 16) \<and>
   decodeName twoCycle 12 = Inl CompressionLoop"
proof -
  have sizes: "\<forall>label \<in> set [[97 :: byte]]. 1 \<le> length label \<and> length label \<le> 63"
    by simp
  have name: "drop 12 selfPointer = serializeLabels [] [[97]] @ 0xC0 # 14 # []"
    by (simp add: selfPointer_def)
  have pointer: "(0xC0 :: byte) AND 0xC0 = 0xC0"
    "pointerOffset 0xC0 14 = 12 + length (serializeLabels [] [[97 :: byte]])"
    by (simp_all add: pointerOffset_def)
  have two: "scanLabels twoCycle 12 = Inr ([], PointerTo 14 14)"
    "scanLabels twoCycle 14 = Inr ([], PointerTo 12 16)"
    by code_simp+
  then have cycle: "\<forall>off \<in> {12, 14}. \<exists>labels target n.
      scanLabels twoCycle off = Inr (labels, PointerTo target n) \<and> target \<in> {12, 14}"
    by simp
  have len: "length selfPointer = 16"
    by (simp add: selfPointer_def)
  from C3_compression_loop_guard [of selfPointer 12 "[[97]]" "0xC0" 14 "[]" "{}"]
    sizes name pointer len
  have "decodeSteps (length selfPointer) selfPointer 12 \<le> 289"
    "decodeName selfPointer 12 = Inl CompressionLoop"
    by simp_all
  moreover from C3_compression_loop_guard [of twoCycle 12 "[]" 0 0 "[]" "{12, 14}"] cycle
  have "decodeName twoCycle 12 = Inl CompressionLoop"
    by blast
  ultimately show ?thesis
    using name pointer(2) two by simp
qed

end
